theory Spec2Isabelle
  imports Main "HOL-Library.Sublist" "HOL-Library.AList"
begin

section \<open>Shared vocabulary\<close>

text \<open>
  A \<open>cid.Cid\<close> is a Go struct wrapping one string; \<open>cid.Undef\<close> is the zero value, the
  empty string. A \<open>peer.ID\<close> is a string as well. Channels and contexts are referred to
  by a number that identifies the object.
\<close>

type_synonym cid = string
type_synonym peer = string
type_synonym chan = nat
type_synonym ctx = nat

definition Undef :: cid where
  "Undef = []"

text \<open>
  Go errors: \<open>errors.New\<close> and \<open>fmt.Errorf\<close> build a plain error carrying its text;
  \<open>rateLimitErr\<close> is the dedicated struct type of package dtsync.
\<close>

datatype error = errorString string | rateLimitErr string

fun Error :: "error \<Rightarrow> string" where
  "Error (errorString m) = m"
| "Error (rateLimitErr m) = m"

text \<open>What a goroutine can die of where the code touches a channel.\<close>

datatype fault = SendOnClosedChannel | SendWouldBlock | CloseOfClosedChannel | CloseOfNilChannel

section \<open>HTTP subscriber (package httpsync)\<close>

text \<open>
  An \<open>ipld.Node\<close> used as a selector is either a node handed in by the caller or the
  result of \<open>legs.ExploreRecursiveWithStopNode(selector.RecursionLimitNone(), dss, stop)\<close>,
  which is kept symbolic: its two varying arguments are recorded.
\<close>

datatype node = Node string | ExploreRecursiveWithStopNode "node option" cid

record req =
  req_Cid :: cid
  req_dss :: "node option"
  req_ctx :: ctx
  req_resp :: chan

text \<open>
  The \<open>legs.Syncer\<close> talks to the remote publisher. \<open>GetHead\<close> returns a cid together
  with an error or nil, \<open>Sync\<close> returns an error or nil (\<open>None\<close>). A cancelled context
  shows as the error these calls return.
\<close>

record syncer =
  GetHead :: "ctx \<Rightarrow> cid \<times> error option"
  Sync :: "ctx \<Rightarrow> cid \<Rightarrow> node \<Rightarrow> error option"

text \<open>
  \<open>reqs\<close> is the buffered channel of capacity 1 between \<open>Sync\<close> and \<open>background\<close>;
  \<open>subs\<close> is a slice of channels whose entries may be nil (\<open>None\<close>).
\<close>

record httpSubscriber =
  dss :: "node option"
  reqs :: "req list"
  head :: cid
  subs :: "chan option list"

text \<open>
  The state of the \<open>background\<close> goroutine: the subscriber it works on, the loop
  variables that survive an iteration (\<open>nextCid\<close>, \<open>workResp\<close>), every value sent on a
  response channel (the channel is closed right after), and what was logged.
\<close>

record bg =
  sub :: httpSubscriber
  nextCid :: cid
  workResp :: "chan option"
  sent :: "(chan \<times> cid) list"
  logged :: "error list"

definition background_ctx :: ctx where
  "background_ctx = 0"

definition NewHTTPSubscriber :: "node option \<Rightarrow> httpSubscriber" where
  "NewHTTPSubscriber d = \<lparr>dss = d, reqs = [], head = Undef, subs = [None]\<rparr>"

definition background_init :: "httpSubscriber \<Rightarrow> bg" where
  "background_init hs = \<lparr>sub = hs, nextCid = Undef, workResp = None, sent = [], logged = []\<rparr>"

definition SetLatestSync :: "cid \<Rightarrow> httpSubscriber \<Rightarrow> httpSubscriber" where
  "SetLatestSync c hs = hs\<lparr>head := c\<rparr>"

definition LatestSync :: "httpSubscriber \<Rightarrow> cid" where
  "LatestSync hs = head hs"

text \<open>
  \<open>Sync\<close> makes the response channel (\<open>respChan\<close>, supplied here as a fresh number),
  sends the request on \<open>reqs\<close> and returns the channel with a nil error. The send blocks
  while the buffer is full.
\<close>

definition httpSubscriber_Sync ::
  "ctx \<Rightarrow> peer \<Rightarrow> cid \<Rightarrow> node option \<Rightarrow> chan \<Rightarrow> httpSubscriber
     \<Rightarrow> fault + ((chan \<times> error option) \<times> httpSubscriber)" where
  "httpSubscriber_Sync cx p c selector respChan hs =
     (if length (reqs hs) \<ge> 1 then Inl SendWouldBlock
      else Inr ((respChan, None),
                hs\<lparr>reqs := reqs hs @
                  [\<lparr>req_Cid = c, req_dss = selector, req_ctx = cx, req_resp = respChan\<rparr>]\<rparr>))"

text \<open>
  \<open>OnChange\<close> appends a new channel to \<open>subs\<close>. \<open>Close\<close> closes every entry of \<open>subs\<close>
  in order and leaves an empty slice; closing a nil channel panics. The set of channels
  closed so far is threaded through.
\<close>

definition OnChange :: "chan \<Rightarrow> httpSubscriber \<Rightarrow> httpSubscriber" where
  "OnChange ch hs = hs\<lparr>subs := subs hs @ [Some ch]\<rparr>"

fun close_all :: "chan option list \<Rightarrow> chan list \<Rightarrow> fault + chan list" where
  "close_all [] cl = Inr cl"
| "close_all (None # cs) cl = Inl CloseOfNilChannel"
| "close_all (Some ch # cs) cl =
     (if ch \<in> set cl then Inl CloseOfClosedChannel else close_all cs (cl @ [ch]))"

definition httpSubscriber_Close ::
  "chan list \<Rightarrow> httpSubscriber \<Rightarrow> fault + (chan list \<times> httpSubscriber)" where
  "httpSubscriber_Close cl hs =
     (case close_all (subs hs) cl of
        Inl f \<Rightarrow> Inl f
      | Inr cl' \<Rightarrow> Inr (cl', hs\<lparr>subs := []\<rparr>))"

text \<open>The two cases of the \<open>select\<close> in \<open>background\<close>.\<close>

datatype select_case = RecvReq | TimerFired

text \<open>Top of the loop: deliver the previous result on \<open>workResp\<close> and close it.\<close>

definition finish_previous :: "bg \<Rightarrow> bg" where
  "finish_previous s =
     (case workResp s of
        None \<Rightarrow> s
      | Some ch \<Rightarrow> s\<lparr>workResp := None, sent := sent s @ [(ch, nextCid s)]\<rparr>)"

text \<open>From the selector defaulting to the head update (the tail of the loop body).\<close>

definition transfer :: "syncer \<Rightarrow> ctx \<Rightarrow> node option \<Rightarrow> bool \<Rightarrow> bg \<Rightarrow> bg" where
  "transfer sy cx sel updateHead s =
     (let sel' = (case sel of
                    None \<Rightarrow> ExploreRecursiveWithStopNode (dss (sub s)) (head (sub s))
                  | Some n \<Rightarrow> n)
      in case Sync sy cx (nextCid s) sel' of
           Some err \<Rightarrow> s\<lparr>logged := logged s @ [err]\<rparr>
         | None \<Rightarrow> if updateHead then s\<lparr>sub := (sub s)\<lparr>head := nextCid s\<rparr>\<rparr> else s)"

text \<open>From the head query on: \<open>continue\<close> leaves the iteration with the state as it is.\<close>

definition resolve :: "syncer \<Rightarrow> ctx \<Rightarrow> node option \<Rightarrow> bool \<Rightarrow> bg \<Rightarrow> bg" where
  "resolve sy cx sel updateHead s =
     (if nextCid s = Undef then
        (case GetHead sy cx of
           (c, Some err) \<Rightarrow> s\<lparr>nextCid := c, logged := logged s @ [err]\<rparr>
         | (c, None) \<Rightarrow> transfer sy cx sel updateHead (s\<lparr>nextCid := c\<rparr>))
      else transfer sy cx sel updateHead s)"

text \<open>
  One iteration of the \<open>for\<close> loop of \<open>background\<close>, for the \<open>select\<close> case that fired.
  With no request buffered the receive case cannot fire and the goroutine stays at the
  \<open>select\<close>.
\<close>

definition background :: "syncer \<Rightarrow> select_case \<Rightarrow> bg \<Rightarrow> bg" where
  "background sy ev s0 =
     (let s = finish_previous s0 in
      case ev of
        TimerFired \<Rightarrow>
          resolve sy background_ctx None True (s\<lparr>nextCid := Undef, workResp := None\<rparr>)
      | RecvReq \<Rightarrow>
          (case reqs (sub s) of
             [] \<Rightarrow> s
           | r # rs \<Rightarrow>
               resolve sy (req_ctx r) (req_dss r) (req_dss r = None \<and> req_Cid r = Undef)
                 (s\<lparr>sub := (sub s)\<lparr>reqs := rs\<rparr>,
                    nextCid := req_Cid r, workResp := Some (req_resp r)\<rparr>)))"

text \<open>
  A default sync: the timer fired, or the request taken from \<open>reqs\<close> has neither a cid
  nor a selector.
\<close>

definition default_sync :: "select_case \<Rightarrow> bg \<Rightarrow> bool" where
  "default_sync ev s =
     (case ev of
        TimerFired \<Rightarrow> True
      | RecvReq \<Rightarrow>
          (case reqs (sub s) of
             [] \<Rightarrow> False
           | r # rs \<Rightarrow> req_Cid r = Undef \<and> req_dss r = None))"

section \<open>HTTP publisher (package httpsync)\<close>





record response =
  status :: nat
  body :: string






section \<open>Data-transfer sync (package dtsync)\<close>

definition hitRateLimitErrStr :: string where
  "hitRateLimitErrStr = ''hit rate limit''"

text \<open>The key of an in-progress sync: the cid and the peer.\<close>

type_synonym inProgressSyncKey = "cid \<times> peer"

text \<open>
  A channel of errors with a buffer of one: \<open>buf\<close> holds what was sent on it (a receiver
  is not modelled, so a second send finds the buffer full).
\<close>

record chan_state =
  buf :: "error list"
  closed :: bool

type_synonym lid = nat

text \<open>
  The \<open>Sync\<close> struct with the objects it points to. \<open>syncDoneChans\<close> is a Go map that
  may be nil (\<open>None\<close>), kept as an association list. \<open>chans\<close> is the store of channels and
  \<open>nchans\<close> the next unused channel. \<open>limiters\<close> is the store of \<open>rate.Limiter\<close> objects,
  each reduced to the number of tokens it holds (the refill over time is the
  environment's). \<open>dtClose\<close> is the optional close function with the error it returns.
  \<open>subscribed\<close> and \<open>hookRegistered\<close> say whether \<open>onEvent\<close> and the block hook are
  still registered with the data-transfer manager and the graph exchange.
  \<open>blockHookCalls\<close> lists the calls of the caller's block hook, and
  \<open>terminateWithError\<close> is what the hook told \<open>hookActions\<close> for the block at hand.
\<close>

record dtsync =
  syncDoneChans :: "(inProgressSyncKey \<times> chan) list option"
  overrideRateLimiterFor :: "peer \<rightharpoonup> lid"
  isRetryingDueToRateLimit :: "peer \<rightharpoonup> cid"
  dtClose :: "error option option"
  subscribed :: bool
  hookRegistered :: bool
  chans :: "chan \<Rightarrow> chan_state"
  nchans :: nat
  limiters :: "lid \<Rightarrow> nat"
  blockHookCalls :: "(peer \<times> cid) list"
  terminateWithError :: "error option"

definition NewSync :: "error option option \<Rightarrow> (lid \<Rightarrow> nat) \<Rightarrow> dtsync" where
  "NewSync close_fn lims =
     \<lparr>syncDoneChans = None, overrideRateLimiterFor = Map.empty,
      isRetryingDueToRateLimit = Map.empty, dtClose = close_fn,
      subscribed = True, hookRegistered = True,
      chans = (\<lambda>_. \<lparr>buf = [], closed = False\<rparr>), nchans = 0,
      limiters = lims, blockHookCalls = [], terminateWithError = None\<rparr>"

subsection \<open>Channels\<close>

definition chan_send :: "chan \<Rightarrow> error \<Rightarrow> dtsync \<Rightarrow> fault + dtsync" where
  "chan_send ch e s =
     (let c = chans s ch in
      if closed c then Inl SendOnClosedChannel
      else if length (buf c) \<ge> 1 then Inl SendWouldBlock
      else Inr (s\<lparr>chans := (chans s)(ch := c\<lparr>buf := buf c @ [e]\<rparr>)\<rparr>))"

definition chan_close :: "chan \<Rightarrow> dtsync \<Rightarrow> fault + dtsync" where
  "chan_close ch s =
     (let c = chans s ch in
      if closed c then Inl CloseOfClosedChannel
      else Inr (s\<lparr>chans := (chans s)(ch := c\<lparr>closed := True\<rparr>)\<rparr>))"

text \<open>The entries of the map; a nil map has none.\<close>

definition entries :: "dtsync \<Rightarrow> (inProgressSyncKey \<times> chan) list" where
  "entries s = (case syncDoneChans s of None \<Rightarrow> [] | Some m \<Rightarrow> m)"

definition notifyOnSyncDone :: "inProgressSyncKey \<Rightarrow> dtsync \<Rightarrow> chan \<times> dtsync" where
  "notifyOnSyncDone k s =
     (let syncDone = nchans s;
          s1 = s\<lparr>nchans := Suc (nchans s),
                 chans := (chans s)(syncDone := \<lparr>buf = [], closed = False\<rparr>)\<rparr>;
          m = (case syncDoneChans s1 of None \<Rightarrow> [] | Some m \<Rightarrow> m)
      in (syncDone, s1\<lparr>syncDoneChans := Some (AList.update k syncDone m)\<rparr>))"

definition signalSyncDone ::
  "inProgressSyncKey \<Rightarrow> error option \<Rightarrow> dtsync \<Rightarrow> fault + (bool \<times> dtsync)" where
  "signalSyncDone k err s =
     (case map_of (entries s) k of
        None \<Rightarrow> Inr (False, s)
      | Some syncDone \<Rightarrow>
          (let s1 = (if length (entries s) = 1 then s\<lparr>syncDoneChans := None\<rparr>
                     else s\<lparr>syncDoneChans := Some (AList.delete k (entries s))\<rparr>)
           in case (case err of None \<Rightarrow> Inr s1 | Some e \<Rightarrow> chan_send syncDone e s1) of
                Inl f \<Rightarrow> Inl f
              | Inr s2 \<Rightarrow>
                  (case chan_close syncDone s2 of
                     Inl f \<Rightarrow> Inl f
                   | Inr s3 \<Rightarrow> Inr (True, s3))))"

subsection \<open>Transfer events\<close>

text \<open>The channel status: the three terminal ones, and any other.\<close>

datatype status = Completed | Cancelled | Failed | Ongoing

record channelState =
  Status :: status
  Message :: string
  BaseCID :: cid
  OtherPeer :: peer

definition strings_Contains :: "string \<Rightarrow> string \<Rightarrow> bool" where
  "strings_Contains s substr = sublist substr s"

definition strings_HasSuffix :: "string \<Rightarrow> string \<Rightarrow> bool" where
  "strings_HasSuffix s sfx = suffix sfx s"

text \<open>
  The \<open>switch\<close> of \<open>onEvent\<close>: \<open>None\<close> for a status that is not terminal (the function
  returns), otherwise the error, or nil, that is signalled.
\<close>

definition event_error :: "channelState \<Rightarrow> error option option" where
  "event_error cs =
     (case Status cs of
        Completed \<Rightarrow> Some None
      | Cancelled \<Rightarrow> Some (Some (errorString ''datatransfer cancelled''))
      | Failed \<Rightarrow>
          (let msg = Message cs;
               err = (if strings_Contains msg hitRateLimitErrStr then rateLimitErr msg
                      else errorString (''datatransfer failed: '' @ msg))
           in Some (Some (if strings_HasSuffix msg ''content not found''
                          then errorString (Error err @ '': content not found'')
                          else err)))
      | Ongoing \<Rightarrow> None)"

definition onEvent :: "channelState \<Rightarrow> dtsync \<Rightarrow> fault + dtsync" where
  "onEvent cs s =
     (case event_error cs of
        None \<Rightarrow> Inr s
      | Some err \<Rightarrow>
          (case signalSyncDone (BaseCID cs, OtherPeer cs) err s of
             Inl f \<Rightarrow> Inl f
           | Inr (found, s1) \<Rightarrow> Inr s1))"

subsection \<open>Close\<close>

text \<open>The loop of \<open>Close\<close> over the map: send \<open>sync closed\<close>, then close.\<close>

fun dismiss :: "(inProgressSyncKey \<times> chan) list \<Rightarrow> dtsync \<Rightarrow> fault + dtsync" where
  "dismiss [] s = Inr s"
| "dismiss ((k, ch) # es) s =
     (case chan_send ch (errorString ''sync closed'') s of
        Inl f \<Rightarrow> Inl f
      | Inr s1 \<Rightarrow>
          (case chan_close ch s1 of
             Inl f \<Rightarrow> Inl f
           | Inr s2 \<Rightarrow> dismiss es s2))"

definition Sync_Close :: "dtsync \<Rightarrow> fault + (error option \<times> dtsync)" where
  "Sync_Close s =
     (let s1 = s\<lparr>subscribed := False, hookRegistered := False\<rparr>;
          err = (case dtClose s1 of None \<Rightarrow> None | Some r \<Rightarrow> r)
      in case dismiss (entries s1) s1 of
           Inl f \<Rightarrow> Inl f
         | Inr s2 \<Rightarrow> Inr (err, s2\<lparr>syncDoneChans := None\<rparr>))"

subsection \<open>Rate limiting of incoming blocks\<close>

record blockData =
  Link :: cid
  BlockSizeOnWire :: nat

text \<open>
  An incoming-block hook acts on the state; \<open>responseData\<close> is not used by any hook here.
  A hook value may be nil (\<open>None\<close>).
\<close>

type_synonym hook = "peer \<Rightarrow> blockData \<Rightarrow> dtsync \<Rightarrow> dtsync"

text \<open>\<open>limiter.Allow()\<close>: take a token if there is one.\<close>

definition Allow :: "lid \<Rightarrow> dtsync \<Rightarrow> bool \<times> dtsync" where
  "Allow l s =
     (if limiters s l > 0 then (True, s\<lparr>limiters := (limiters s)(l := limiters s l - 1)\<rparr>)
      else (False, s))"

definition wrapRateLimiterFor :: "(peer \<Rightarrow> lid) \<Rightarrow> dtsync \<Rightarrow> peer \<Rightarrow> lid" where
  "wrapRateLimiterFor limiterFor s p =
     (case overrideRateLimiterFor s p of Some l \<Rightarrow> l | None \<Rightarrow> limiterFor p)"

definition call_hook :: "hook option \<Rightarrow> hook" where
  "call_hook bFn p bd s = (case bFn of None \<Rightarrow> s | Some f \<Rightarrow> f p bd s)"

definition addRateLimiting :: "hook option \<Rightarrow> (dtsync \<Rightarrow> peer \<Rightarrow> lid) \<Rightarrow> hook" where
  "addRateLimiting bFn rateLimiter p bd s =
     (let isLocalBlock = (BlockSizeOnWire bd = 0);
          (allowed, s1) = (if \<not> isLocalBlock then Allow (rateLimiter s p) s else (True, s))
      in if \<not> allowed then
           s1\<lparr>isRetryingDueToRateLimit := (isRetryingDueToRateLimit s1)(p \<mapsto> Link bd),
              terminateWithError := Some (errorString hitRateLimitErrStr)\<rparr>
         else
           (case isRetryingDueToRateLimit s1 p of
              Some lastFailedBlock \<Rightarrow>
                if lastFailedBlock = Link bd then
                  call_hook bFn p bd
                    (s1\<lparr>isRetryingDueToRateLimit := (isRetryingDueToRateLimit s1)(p := None)\<rparr>)
                else s1
            | None \<Rightarrow> call_hook bFn p bd s1))"

definition addIncomingBlockHook :: "hook option \<Rightarrow> (peer \<Rightarrow> cid \<Rightarrow> dtsync \<Rightarrow> dtsync) \<Rightarrow> hook" where
  "addIncomingBlockHook bFn blockHook p bd s = call_hook bFn p bd (blockHook p (Link bd) s)"

text \<open>The caller's block hook is opaque; its calls are recorded.\<close>

definition blockHook :: "peer \<Rightarrow> cid \<Rightarrow> dtsync \<Rightarrow> dtsync" where
  "blockHook p c s = s\<lparr>blockHookCalls := blockHookCalls s @ [(p, c)]\<rparr>"

text \<open>The hook that \<open>NewSync\<close> registers when the caller gives a block hook.\<close>

definition incomingBlockHook :: "(peer \<Rightarrow> lid) \<Rightarrow> hook" where
  "incomingBlockHook limiterFor =
     addRateLimiting (Some (addIncomingBlockHook None blockHook)) (wrapRateLimiterFor limiterFor)"

text \<open>
  One pass of a transfer as the graph exchange drives it: the hook is called for each
  incoming block in turn, and a \<open>TerminateWithError\<close> ends the transfer.
\<close>

fun incoming_blocks :: "hook \<Rightarrow> peer \<Rightarrow> blockData list \<Rightarrow> dtsync \<Rightarrow> dtsync" where
  "incoming_blocks hk p [] s = s"
| "incoming_blocks hk p (bd # bds) s =
     (let s1 = hk p bd (s\<lparr>terminateWithError := None\<rparr>)
      in if terminateWithError s1 \<noteq> None then s1 else incoming_blocks hk p bds s1)"

text \<open>
  The blocks of a pass that need a token from the limiter: those that came over the
  wire (\<open>isLocalBlock\<close> is false for them).
\<close>

definition wire_blocks :: "blockData list \<Rightarrow> nat" where
  "wire_blocks bds = length (filter (\<lambda>b. BlockSizeOnWire b \<noteq> 0) bds)"

subsection \<open>Well-formed sync-done table\<close>

text \<open>
  What holds of the table between calls: no key and no channel occurs twice, and every
  registered channel has been made, is open, and has nothing sent on it yet.
\<close>

definition chans_ok :: "dtsync \<Rightarrow> bool" where
  "chans_ok s =
     (distinct (map fst (entries s)) \<and> distinct (map snd (entries s))
      \<and> list_all (\<lambda>e. snd e < nchans s \<and> chans s (snd e) = \<lparr>buf = [], closed = False\<rparr>)
           (entries s))"

subsection \<open>Concrete inputs\<close>

text \<open>One limiter for every peer, and limiters that hold \<open>n\<close> tokens each.\<close>

definition one_limiter :: "peer \<Rightarrow> lid" where
  "one_limiter p = 0"

definition tokens :: "nat \<Rightarrow> lid \<Rightarrow> nat" where
  "tokens n l = n"






section \<open>Verification\<close>

subsection \<open>Latest sync of the HTTP subscriber\<close>

lemma sub_finish_previous: "sub (finish_previous s) = sub s"
  by (simp add: finish_previous_def split: option.splits)

lemma logged_finish_previous: "logged (finish_previous s) = logged s"
  by (simp add: finish_previous_def split: option.splits)

lemma transfer_changes_head:
  assumes "head (sub (transfer sy cx sel u s)) \<noteq> head (sub s)"
  shows "u \<and> logged (transfer sy cx sel u s) = logged s
         \<and> head (sub (transfer sy cx sel u s)) = nextCid (transfer sy cx sel u s)"
  using assms by (auto simp: transfer_def Let_def split: option.splits if_splits)

lemma resolve_changes_head:
  assumes "head (sub (resolve sy cx sel u s)) \<noteq> head (sub s)"
  shows "u \<and> logged (resolve sy cx sel u s) = logged s
         \<and> head (sub (resolve sy cx sel u s)) = nextCid (resolve sy cx sel u s)"
proof (cases "nextCid s = Undef")
  case False
  then have eq: "resolve sy cx sel u s = transfer sy cx sel u s"
    by (simp add: resolve_def)
  show ?thesis using assms unfolding eq by (rule transfer_changes_head)
next
  case True
  obtain c e where g: "GetHead sy cx = (c, e)" by (cases "GetHead sy cx")
  show ?thesis
  proof (cases e)
    case (Some err)
    then show ?thesis using assms True g by (simp add: resolve_def)
  next
    case None
    let ?s = "s\<lparr>nextCid := c\<rparr>"
    from None have eq: "resolve sy cx sel u s = transfer sy cx sel u ?s"
      using True g by (simp add: resolve_def)
    have "head (sub (transfer sy cx sel u ?s)) \<noteq> head (sub ?s)"
      using assms unfolding eq by simp
    then have "u \<and> logged (transfer sy cx sel u ?s) = logged ?s
         \<and> head (sub (transfer sy cx sel u ?s)) = nextCid (transfer sy cx sel u ?s)"
      by (rule transfer_changes_head)
    then show ?thesis unfolding eq by auto
  qed
qed

lemma transfer_success:
  assumes "logged (transfer sy cx sel True s) = logged s"
  shows "head (sub (transfer sy cx sel True s)) = nextCid (transfer sy cx sel True s)"
proof (cases "Sync sy cx (nextCid s)
                (case sel of
                   None \<Rightarrow> ExploreRecursiveWithStopNode (dss (sub s)) (head (sub s))
                 | Some n \<Rightarrow> n)")
  case None
  then show ?thesis by (simp add: transfer_def)
next
  case (Some err)
  then have "logged (transfer sy cx sel True s) = logged s @ [err]"
    by (simp add: transfer_def)
  with assms show ?thesis by simp
qed

lemma resolve_success:
  assumes "logged (resolve sy cx sel True s) = logged s"
  shows "head (sub (resolve sy cx sel True s)) = nextCid (resolve sy cx sel True s)"
proof (cases "nextCid s = Undef")
  case False
  then have eq: "resolve sy cx sel True s = transfer sy cx sel True s"
    by (simp add: resolve_def)
  show ?thesis using assms unfolding eq by (rule transfer_success)
next
  case True
  obtain c e where g: "GetHead sy cx = (c, e)" by (cases "GetHead sy cx")
  show ?thesis
  proof (cases e)
    case (Some err)
    then have "logged (resolve sy cx sel True s) = logged s @ [err]"
      using True g by (simp add: resolve_def)
    with assms show ?thesis by simp
  next
    case None
    let ?s = "s\<lparr>nextCid := c\<rparr>"
    from None have eq: "resolve sy cx sel True s = transfer sy cx sel True ?s"
      using True g by (simp add: resolve_def)
    have "logged (transfer sy cx sel True ?s) = logged ?s"
      using assms unfolding eq by simp
    then show ?thesis unfolding eq by (rule transfer_success)
  qed
qed

text \<open>The iteration as one call of \<open>resolve\<close>, for each case that can fire.\<close>

lemma background_TimerFired:
  "background sy TimerFired s =
     resolve sy background_ctx None True
       ((finish_previous s)\<lparr>nextCid := Undef, workResp := None\<rparr>)"
  by (simp add: background_def Let_def)

lemma background_RecvReq:
  assumes "reqs (sub s) = r # rs"
  shows "background sy RecvReq s =
     resolve sy (req_ctx r) (req_dss r) (req_dss r = None \<and> req_Cid r = Undef)
       ((finish_previous s)\<lparr>sub := (sub s)\<lparr>reqs := rs\<rparr>,
          nextCid := req_Cid r, workResp := Some (req_resp r)\<rparr>)"
  using assms by (simp add: background_def Let_def sub_finish_previous)

lemma background_RecvReq_empty:
  assumes "reqs (sub s) = []"
  shows "background sy RecvReq s = finish_previous s"
  using assms by (simp add: background_def Let_def sub_finish_previous)

lemma background_changes_head:
  assumes "head (sub (background sy ev s)) \<noteq> head (sub s)"
  shows "default_sync ev s \<and> logged (background sy ev s) = logged s
         \<and> head (sub (background sy ev s)) = nextCid (background sy ev s)"
proof (cases ev)
  case TimerFired
  let ?s = "(finish_previous s)\<lparr>nextCid := Undef, workResp := None\<rparr>"
  have "head (sub (resolve sy background_ctx None True ?s)) \<noteq> head (sub ?s)"
    using assms unfolding TimerFired background_TimerFired
    by (simp add: sub_finish_previous)
  then have "True \<and> logged (resolve sy background_ctx None True ?s) = logged ?s
      \<and> head (sub (resolve sy background_ctx None True ?s))
          = nextCid (resolve sy background_ctx None True ?s)"
    by (rule resolve_changes_head)
  then show ?thesis unfolding TimerFired background_TimerFired
    by (simp add: default_sync_def logged_finish_previous)
next
  case RecvReq
  show ?thesis
  proof (cases "reqs (sub s)")
    case Nil
    then show ?thesis using assms unfolding RecvReq
      by (simp add: background_RecvReq_empty sub_finish_previous)
  next
    case (Cons r rs)
    let ?s = "(finish_previous s)\<lparr>sub := (sub s)\<lparr>reqs := rs\<rparr>,
                nextCid := req_Cid r, workResp := Some (req_resp r)\<rparr>"
    let ?u = "req_dss r = None \<and> req_Cid r = Undef"
    note eq = background_RecvReq [OF Cons, of sy]
    have "head (sub (resolve sy (req_ctx r) (req_dss r) ?u ?s)) \<noteq> head (sub ?s)"
      using assms unfolding RecvReq eq by simp
    then have "?u \<and> logged (resolve sy (req_ctx r) (req_dss r) ?u ?s) = logged ?s
      \<and> head (sub (resolve sy (req_ctx r) (req_dss r) ?u ?s))
          = nextCid (resolve sy (req_ctx r) (req_dss r) ?u ?s)"
      by (rule resolve_changes_head)
    then show ?thesis unfolding RecvReq eq using Cons
      by (auto simp: default_sync_def logged_finish_previous)
  qed
qed

lemma background_default_success:
  assumes "default_sync ev s" and "logged (background sy ev s) = logged s"
  shows "head (sub (background sy ev s)) = nextCid (background sy ev s)"
proof (cases ev)
  case TimerFired
  let ?s = "(finish_previous s)\<lparr>nextCid := Undef, workResp := None\<rparr>"
  have "logged (resolve sy background_ctx None True ?s) = logged ?s"
    using assms(2) unfolding TimerFired background_TimerFired
    by (simp add: logged_finish_previous)
  then show ?thesis unfolding TimerFired background_TimerFired
    by (rule resolve_success)
next
  case RecvReq
  then obtain r rs where r: "reqs (sub s) = r # rs" and u: "req_dss r = None \<and> req_Cid r = Undef"
    using assms(1) by (auto simp: default_sync_def split: list.splits)
  let ?s = "(finish_previous s)\<lparr>sub := (sub s)\<lparr>reqs := rs\<rparr>,
              nextCid := req_Cid r, workResp := Some (req_resp r)\<rparr>"
  have eq: "background sy RecvReq s = resolve sy (req_ctx r) (req_dss r) True ?s"
    using background_RecvReq [OF r, of sy] u by simp
  have "logged (resolve sy (req_ctx r) (req_dss r) True ?s) = logged ?s"
    using assms(2) unfolding RecvReq eq by (simp add: logged_finish_previous)
  then show ?thesis unfolding RecvReq eq by (rule resolve_success)
qed

text \<open>
  C1. A sync request that carries a cid or a selector leaves the latest sync as it was.
  Whenever an iteration of the loop changes the latest sync, the sync was a default one
  (neither a cid nor a selector), it ended without an error being logged, and the new
  latest sync is the target of the sync (\<open>nextCid\<close>, the cid handed to the syncer).
  A default sync that ends without an error sets the latest sync to that target.
\<close>

theorem explicit_sync_keeps_latest_sync:
  "(reqs (sub s) = r # rs \<and> (req_Cid r \<noteq> Undef \<or> req_dss r \<noteq> None)
      \<longrightarrow> LatestSync (sub (background sy RecvReq s)) = LatestSync (sub s))
   \<and> (LatestSync (sub (background sy ev s)) \<noteq> LatestSync (sub s)
      \<longrightarrow> default_sync ev s \<and> logged (background sy ev s) = logged s
          \<and> LatestSync (sub (background sy ev s)) = nextCid (background sy ev s))
   \<and> (default_sync ev s \<and> logged (background sy ev s) = logged s
      \<longrightarrow> LatestSync (sub (background sy ev s)) = nextCid (background sy ev s))"
proof (intro conjI impI)
  assume a: "reqs (sub s) = r # rs \<and> (req_Cid r \<noteq> Undef \<or> req_dss r \<noteq> None)"
  then have "\<not> default_sync RecvReq s"
    by (auto simp: default_sync_def)
  then show "LatestSync (sub (background sy RecvReq s)) = LatestSync (sub s)"
    unfolding LatestSync_def using background_changes_head [of sy RecvReq s] by blast
next
  assume "LatestSync (sub (background sy ev s)) \<noteq> LatestSync (sub s)"
  then have "head (sub (background sy ev s)) \<noteq> head (sub s)"
    by (simp add: LatestSync_def)
  then have "default_sync ev s \<and> logged (background sy ev s) = logged s
         \<and> head (sub (background sy ev s)) = nextCid (background sy ev s)"
    by (rule background_changes_head)
  then show "default_sync ev s" and "logged (background sy ev s) = logged s"
    and "LatestSync (sub (background sy ev s)) = nextCid (background sy ev s)"
    by (simp_all add: LatestSync_def)
next
  assume "default_sync ev s \<and> logged (background sy ev s) = logged s"
  then show "LatestSync (sub (background sy ev s)) = nextCid (background sy ev s)"
    unfolding LatestSync_def using background_default_success by blast
qed

theorem explicit_sync_keeps_latest_sync_witness:
  "LatestSync (sub (background \<lparr>GetHead = (\<lambda>_. (''new'', None)), Sync = (\<lambda>_ _ _. None)\<rparr> RecvReq
      (background_init ((NewHTTPSubscriber None)
         \<lparr>reqs := [\<lparr>req_Cid = ''c1'', req_dss = None, req_ctx = 1, req_resp = 7\<rparr>],
          head := ''old''\<rparr>)))) = ''old''
   \<and> LatestSync (sub (background \<lparr>GetHead = (\<lambda>_. (''new'', None)), Sync = (\<lambda>_ _ _. None)\<rparr> TimerFired
      (background_init ((NewHTTPSubscriber None)
         \<lparr>reqs := [\<lparr>req_Cid = ''c1'', req_dss = None, req_ctx = 1, req_resp = 7\<rparr>],
          head := ''old''\<rparr>)))) = ''new''"
  using explicit_sync_keeps_latest_sync
    [of "background_init ((NewHTTPSubscriber None)
         \<lparr>reqs := [\<lparr>req_Cid = ''c1'', req_dss = None, req_ctx = 1, req_resp = 7\<rparr>],
          head := ''old''\<rparr>)"
        "\<lparr>req_Cid = ''c1'', req_dss = None, req_ctx = 1, req_resp = 7\<rparr>" "[]"
        "\<lparr>GetHead = (\<lambda>_. (''new'', None)), Sync = (\<lambda>_ _ _. None)\<rparr>" TimerFired]
  by (simp add: background_def background_init_def NewHTTPSubscriber_def LatestSync_def
      finish_previous_def resolve_def transfer_def Undef_def default_sync_def)

text \<open>Each of the two error exits of the loop body logs its error.\<close>

lemma GetHead_error_logged:
  assumes "nextCid s = Undef" and "GetHead sy cx = (c, Some e)"
  shows "resolve sy cx sel u s = s\<lparr>nextCid := c, logged := logged s @ [e]\<rparr>"
  using assms by (simp add: resolve_def)

lemma Sync_error_logged:
  assumes "Sync sy cx (nextCid s)
             (case sel of
                None \<Rightarrow> ExploreRecursiveWithStopNode (dss (sub s)) (head (sub s))
              | Some n \<Rightarrow> n) = Some e"
  shows "transfer sy cx sel u s = s\<lparr>logged := logged s @ [e]\<rparr>"
  using assms by (simp add: transfer_def)

text \<open>
  C2. A sync that ends with an error leaves the latest sync as it was before the sync:
  when the head query fails, when the transfer fails (a cancelled context is the error
  of either call), and, seen from outside, whenever an iteration of the loop logs an
  error.
\<close>

theorem failed_sync_keeps_latest_sync:
  "(nextCid s = Undef \<and> snd (GetHead sy cx) \<noteq> None
      \<longrightarrow> LatestSync (sub (resolve sy cx sel u s)) = LatestSync (sub s))
   \<and> (Sync sy cx (nextCid s)
         (case sel of
            None \<Rightarrow> ExploreRecursiveWithStopNode (dss (sub s)) (head (sub s))
          | Some n \<Rightarrow> n) \<noteq> None
      \<longrightarrow> LatestSync (sub (transfer sy cx sel u s)) = LatestSync (sub s))
   \<and> (logged (background sy ev s) \<noteq> logged s
      \<longrightarrow> LatestSync (sub (background sy ev s)) = LatestSync (sub s))"
proof (intro conjI impI)
  assume a: "nextCid s = Undef \<and> snd (GetHead sy cx) \<noteq> None"
  then obtain c e where "GetHead sy cx = (c, Some e)"
    by (cases "GetHead sy cx") auto
  with a have "resolve sy cx sel u s = s\<lparr>nextCid := c, logged := logged s @ [e]\<rparr>"
    by (simp add: GetHead_error_logged)
  then show "LatestSync (sub (resolve sy cx sel u s)) = LatestSync (sub s)"
    by (simp add: LatestSync_def)
next
  assume "Sync sy cx (nextCid s)
         (case sel of
            None \<Rightarrow> ExploreRecursiveWithStopNode (dss (sub s)) (head (sub s))
          | Some n \<Rightarrow> n) \<noteq> None"
  then obtain e where "Sync sy cx (nextCid s)
         (case sel of
            None \<Rightarrow> ExploreRecursiveWithStopNode (dss (sub s)) (head (sub s))
          | Some n \<Rightarrow> n) = Some e"
    by blast
  then have "transfer sy cx sel u s = s\<lparr>logged := logged s @ [e]\<rparr>"
    by (rule Sync_error_logged)
  then show "LatestSync (sub (transfer sy cx sel u s)) = LatestSync (sub s)"
    by (simp add: LatestSync_def)
next
  assume "logged (background sy ev s) \<noteq> logged s"
  then show "LatestSync (sub (background sy ev s)) = LatestSync (sub s)"
    using background_changes_head [of sy ev s] unfolding LatestSync_def by blast
qed

theorem failed_sync_keeps_latest_sync_witness:
  "LatestSync (sub (resolve
      \<lparr>GetHead = (\<lambda>_. (Undef, Some (errorString ''no head''))), Sync = (\<lambda>_ _ _. None)\<rparr>
      background_ctx None True
      (background_init ((NewHTTPSubscriber None)\<lparr>head := ''old''\<rparr>)))) = ''old''
   \<and> LatestSync (sub (transfer
      \<lparr>GetHead = (\<lambda>_. (''new'', None)),
       Sync = (\<lambda>_ _ _. Some (errorString ''datatransfer failed''))\<rparr>
      background_ctx None True
      ((background_init ((NewHTTPSubscriber None)\<lparr>head := ''old''\<rparr>))\<lparr>nextCid := ''new''\<rparr>)))
      = ''old''
   \<and> logged (background
      \<lparr>GetHead = (\<lambda>_. (''new'', None)),
       Sync = (\<lambda>_ _ _. Some (errorString ''datatransfer failed''))\<rparr> TimerFired
      (background_init ((NewHTTPSubscriber None)\<lparr>head := ''old''\<rparr>)))
     = [errorString ''datatransfer failed'']
   \<and> LatestSync (sub (background
      \<lparr>GetHead = (\<lambda>_. (''new'', None)),
       Sync = (\<lambda>_ _ _. Some (errorString ''datatransfer failed''))\<rparr> TimerFired
      (background_init ((NewHTTPSubscriber None)\<lparr>head := ''old''\<rparr>)))) = ''old''"
  using
    failed_sync_keeps_latest_sync
      [where s = "background_init ((NewHTTPSubscriber None)\<lparr>head := ''old''\<rparr>)"
         and sy = "\<lparr>GetHead = (\<lambda>_. (Undef, Some (errorString ''no head''))),
                   Sync = (\<lambda>_ _ _. None)\<rparr>"
         and cx = background_ctx and sel = None and u = True and ev = TimerFired]
    failed_sync_keeps_latest_sync
      [where s = "(background_init ((NewHTTPSubscriber None)\<lparr>head := ''old''\<rparr>))
                    \<lparr>nextCid := ''new''\<rparr>"
         and sy = "\<lparr>GetHead = (\<lambda>_. (''new'', None)),
                   Sync = (\<lambda>_ _ _. Some (errorString ''datatransfer failed''))\<rparr>"
         and cx = background_ctx and sel = None and u = True and ev = TimerFired]
    failed_sync_keeps_latest_sync
      [where s = "background_init ((NewHTTPSubscriber None)\<lparr>head := ''old''\<rparr>)"
         and sy = "\<lparr>GetHead = (\<lambda>_. (''new'', None)),
                   Sync = (\<lambda>_ _ _. Some (errorString ''datatransfer failed''))\<rparr>"
         and cx = background_ctx and sel = None and u = True and ev = TimerFired]
  by (simp add: background_def background_init_def NewHTTPSubscriber_def LatestSync_def
      finish_previous_def resolve_def transfer_def Undef_def)

subsection \<open>The rate-limit gate\<close>

lemmas gate_defs = incomingBlockHook_def addRateLimiting_def addIncomingBlockHook_def
  call_hook_def blockHook_def Allow_def wrapRateLimiterFor_def

lemma refused_block:
  assumes "BlockSizeOnWire bd \<noteq> 0" and "\<not> fst (Allow (rateLimiter s p) s)"
  shows "addRateLimiting bFn rateLimiter p bd s =
      s\<lparr>isRetryingDueToRateLimit := (isRetryingDueToRateLimit s)(p \<mapsto> Link bd),
        terminateWithError := Some (errorString hitRateLimitErrStr)\<rparr>"
  using assms by (simp add: addRateLimiting_def Allow_def split: if_splits)

lemma override_reset [simp]:
  "wrapRateLimiterFor limiterFor (s\<lparr>terminateWithError := t\<rparr>) p = wrapRateLimiterFor limiterFor s p"
  by (simp add: wrapRateLimiterFor_def)

text \<open>
  C5. When the limiter refuses a token for a block that came over the wire, the hook
  stores the block's link in the peer's retry slot and terminates the transfer with the
  error \<open>hit rate limit\<close>; nothing else changes, so the caller's block hook is not
  called, and the pass over the incoming blocks ends there.
\<close>

theorem refused_block_terminates:
  assumes "BlockSizeOnWire bd \<noteq> 0" and "\<not> fst (Allow (wrapRateLimiterFor limiterFor s p) s)"
  shows "incomingBlockHook limiterFor p bd s =
      s\<lparr>isRetryingDueToRateLimit := (isRetryingDueToRateLimit s)(p \<mapsto> Link bd),
        terminateWithError := Some (errorString ''hit rate limit'')\<rparr>
    \<and> blockHookCalls (incomingBlockHook limiterFor p bd s) = blockHookCalls s
    \<and> incoming_blocks (incomingBlockHook limiterFor) p (bd # bds) s =
      s\<lparr>isRetryingDueToRateLimit := (isRetryingDueToRateLimit s)(p \<mapsto> Link bd),
        terminateWithError := Some (errorString ''hit rate limit'')\<rparr>"
proof -
  have 1: "incomingBlockHook limiterFor p bd s =
      s\<lparr>isRetryingDueToRateLimit := (isRetryingDueToRateLimit s)(p \<mapsto> Link bd),
        terminateWithError := Some (errorString ''hit rate limit'')\<rparr>"
    unfolding incomingBlockHook_def
    using refused_block [of bd "wrapRateLimiterFor limiterFor" s p] assms
    by (simp add: hitRateLimitErrStr_def)
  have r: "\<not> fst (Allow (wrapRateLimiterFor limiterFor (s\<lparr>terminateWithError := None\<rparr>) p) (s\<lparr>terminateWithError := None\<rparr>))"
    using assms(2) by (simp add: Allow_def split: if_splits)
  have 2: "incomingBlockHook limiterFor p bd (s\<lparr>terminateWithError := None\<rparr>) =
      s\<lparr>isRetryingDueToRateLimit := (isRetryingDueToRateLimit s)(p \<mapsto> Link bd),
        terminateWithError := Some (errorString ''hit rate limit'')\<rparr>"
    unfolding incomingBlockHook_def
    using refused_block [of bd "wrapRateLimiterFor limiterFor" "s\<lparr>terminateWithError := None\<rparr>" p] r assms(1)
    by (simp add: hitRateLimitErrStr_def)
  show ?thesis using 1 2 by (simp add: Let_def)
qed

theorem refused_block_terminates_witness:
  "incomingBlockHook one_limiter ''p'' \<lparr>Link = ''c'', BlockSizeOnWire = 1\<rparr>
      (NewSync None (tokens 0)) =
      (NewSync None (tokens 0))
        \<lparr>isRetryingDueToRateLimit := [''p'' \<mapsto> ''c''],
         terminateWithError := Some (errorString ''hit rate limit'')\<rparr>
   \<and> blockHookCalls (incomingBlockHook one_limiter ''p'' \<lparr>Link = ''c'', BlockSizeOnWire = 1\<rparr>
         (NewSync None (tokens 0))) = []"
  using refused_block_terminates
    [of "\<lparr>Link = ''c'', BlockSizeOnWire = 1\<rparr>" one_limiter "NewSync None (tokens 0)" "''p''" "[]"]
  by (simp add: Allow_def wrapRateLimiterFor_def NewSync_def tokens_def)

text \<open>
  C3 as stated fails: a block with size-on-wire zero reaches the caller's block hook
  when no retry is pending.
\<close>

theorem local_block_hook_called:
  "blockHookCalls (incomingBlockHook one_limiter ''p'' \<lparr>Link = ''c'', BlockSizeOnWire = 0\<rparr>
     (NewSync None (tokens 0))) = [(''p'', ''c'')]"
  by (simp add: gate_defs NewSync_def one_limiter_def tokens_def)

text \<open>
  C3, amended. For a block with size-on-wire zero no token is taken and the transfer is
  not terminated. The caller's block hook is called for it unless the peer's retry slot
  holds the link of another block; when the slot holds this block's link, the slot is
  cleared.
\<close>

theorem local_block_bypasses_gate:
  assumes "BlockSizeOnWire bd = 0"
  shows "limiters (incomingBlockHook limiterFor p bd s) = limiters s
    \<and> terminateWithError (incomingBlockHook limiterFor p bd s) = terminateWithError s
    \<and> blockHookCalls (incomingBlockHook limiterFor p bd s) =
        (if isRetryingDueToRateLimit s p = None \<or> isRetryingDueToRateLimit s p = Some (Link bd)
         then blockHookCalls s @ [(p, Link bd)] else blockHookCalls s)
    \<and> isRetryingDueToRateLimit (incomingBlockHook limiterFor p bd s) =
        (if isRetryingDueToRateLimit s p = Some (Link bd)
         then (isRetryingDueToRateLimit s)(p := None) else isRetryingDueToRateLimit s)"
  using assms by (auto simp: gate_defs split: option.splits)

theorem local_block_bypasses_gate_witness:
  "limiters (incomingBlockHook one_limiter ''p'' \<lparr>Link = ''c'', BlockSizeOnWire = 0\<rparr>
       (NewSync None (tokens 3))) = tokens 3
   \<and> terminateWithError (incomingBlockHook one_limiter ''p'' \<lparr>Link = ''c'', BlockSizeOnWire = 0\<rparr>
       (NewSync None (tokens 3))) = None
   \<and> blockHookCalls (incomingBlockHook one_limiter ''p'' \<lparr>Link = ''c'', BlockSizeOnWire = 0\<rparr>
       (NewSync None (tokens 3))) = [(''p'', ''c'')]"
  using local_block_bypasses_gate
    [of "\<lparr>Link = ''c'', BlockSizeOnWire = 0\<rparr>" one_limiter "''p''" "NewSync None (tokens 3)"]
  by (simp add: NewSync_def)

text \<open>A block that is let through: local, or the limiter has a token for it.\<close>

lemma admitted_step:
  assumes "BlockSizeOnWire bd = 0 \<or> 0 < limiters s (wrapRateLimiterFor limiterFor s p)"
  shows "overrideRateLimiterFor (incomingBlockHook limiterFor p bd s) = overrideRateLimiterFor s"
    and "terminateWithError (incomingBlockHook limiterFor p bd s) = terminateWithError s"
    and "\<forall>l. limiters s l - 1 \<le> limiters (incomingBlockHook limiterFor p bd s) l"
    and "blockHookCalls (incomingBlockHook limiterFor p bd s) =
        (if isRetryingDueToRateLimit s p = None \<or> isRetryingDueToRateLimit s p = Some (Link bd)
         then blockHookCalls s @ [(p, Link bd)] else blockHookCalls s)"
    and "isRetryingDueToRateLimit (incomingBlockHook limiterFor p bd s) =
        (if isRetryingDueToRateLimit s p = Some (Link bd)
         then (isRetryingDueToRateLimit s)(p := None) else isRetryingDueToRateLimit s)"
  using assms by (auto simp: gate_defs split: option.splits)

lemma wrap_cong:
  "overrideRateLimiterFor s' = overrideRateLimiterFor s
     \<Longrightarrow> wrapRateLimiterFor limiterFor s' p = wrapRateLimiterFor limiterFor s p"
  by (simp add: wrapRateLimiterFor_def)

lemma wire_blocks_Cons:
  "wire_blocks (b # bds) = (if BlockSizeOnWire b = 0 then wire_blocks bds else Suc (wire_blocks bds))"
  by (simp add: wire_blocks_def)

lemma local_step_limiters:
  "BlockSizeOnWire bd = 0 \<Longrightarrow> limiters (incomingBlockHook limiterFor p bd s) = limiters s"
  by (auto simp: gate_defs split: option.splits)

lemma tokens_after_step:
  assumes "wire_blocks (b # bds) \<le> limiters s (wrapRateLimiterFor limiterFor s p)"
  shows "BlockSizeOnWire b = 0 \<or> 0 < limiters s (wrapRateLimiterFor limiterFor s p)"
    and "wire_blocks bds
           \<le> limiters (incomingBlockHook limiterFor p b s) (wrapRateLimiterFor limiterFor s p)"
proof -
  show adm: "BlockSizeOnWire b = 0 \<or> 0 < limiters s (wrapRateLimiterFor limiterFor s p)"
    using assms by (auto simp: wire_blocks_Cons split: if_splits)
  show "wire_blocks bds
           \<le> limiters (incomingBlockHook limiterFor p b s) (wrapRateLimiterFor limiterFor s p)"
  proof (cases "BlockSizeOnWire b = 0")
    case True
    then show ?thesis using assms by (simp add: local_step_limiters wire_blocks_Cons)
  next
    case False
    have "limiters s (wrapRateLimiterFor limiterFor s p) - 1
            \<le> limiters (incomingBlockHook limiterFor p b s) (wrapRateLimiterFor limiterFor s p)"
      using admitted_step(3) [OF adm] by blast
    then show ?thesis using assms False by (simp add: wire_blocks_Cons)
  qed
qed

lemma pass_no_retry:
  assumes "isRetryingDueToRateLimit s p = None"
    and "wire_blocks bds \<le> limiters s (wrapRateLimiterFor limiterFor s p)"
    and "terminateWithError s = None"
  shows "blockHookCalls (incoming_blocks (incomingBlockHook limiterFor) p bds s)
           = blockHookCalls s @ map (\<lambda>b. (p, Link b)) bds
       \<and> isRetryingDueToRateLimit (incoming_blocks (incomingBlockHook limiterFor) p bds s) p = None
       \<and> terminateWithError (incoming_blocks (incomingBlockHook limiterFor) p bds s) = None"
  using assms
proof (induction bds arbitrary: s)
  case Nil
  then show ?case by simp
next
  case (Cons bd bds)
  let ?s0 = "s\<lparr>terminateWithError := None\<rparr>"
  let ?s1 = "incomingBlockHook limiterFor p bd ?s0"
  let ?l = "wrapRateLimiterFor limiterFor s p"
  have s0: "?s0 = s" using Cons.prems(3) by simp
  note tk = tokens_after_step [OF Cons.prems(2)]
  note st = admitted_step [OF tk(1)]
  have w: "wrapRateLimiterFor limiterFor ?s1 p = ?l"
    unfolding s0 using st(1) by (rule wrap_cong)
  have t: "terminateWithError ?s1 = None" unfolding s0 using st(2) Cons.prems(3) by simp
  have r: "isRetryingDueToRateLimit ?s1 p = None"
    unfolding s0 using st(5) Cons.prems(1) by simp
  have c: "blockHookCalls ?s1 = blockHookCalls s @ [(p, Link bd)]"
    unfolding s0 using st(4) Cons.prems(1) by simp
  have l: "wire_blocks bds \<le> limiters ?s1 (wrapRateLimiterFor limiterFor ?s1 p)"
    unfolding w unfolding s0 using tk(2) by simp
  from Cons.IH [OF r l t] show ?case using t c by (simp add: Let_def)
qed

lemma incoming_blocks_reset:
  "bds \<noteq> [] \<Longrightarrow>
     incoming_blocks hk p bds (s\<lparr>terminateWithError := None\<rparr>) = incoming_blocks hk p bds s"
  by (cases bds) simp_all

lemma retry_pass:
  assumes "isRetryingDueToRateLimit s p = Some c"
    and "\<forall>b \<in> set pre. Link b \<noteq> c"
    and "Link bd = c"
    and "wire_blocks (pre @ bd # post) \<le> limiters s (wrapRateLimiterFor limiterFor s p)"
    and "terminateWithError s = None"
  shows "blockHookCalls (incoming_blocks (incomingBlockHook limiterFor) p (pre @ bd # post) s)
           = blockHookCalls s @ map (\<lambda>b. (p, Link b)) (bd # post)
       \<and> isRetryingDueToRateLimit
             (incoming_blocks (incomingBlockHook limiterFor) p (pre @ bd # post) s) p = None"
  using assms
proof (induction pre arbitrary: s)
  case Nil
  let ?s0 = "s\<lparr>terminateWithError := None\<rparr>"
  let ?s1 = "incomingBlockHook limiterFor p bd ?s0"
  let ?l = "wrapRateLimiterFor limiterFor s p"
  have s0: "?s0 = s" using Nil.prems(5) by simp
  have h: "wire_blocks (bd # post) \<le> limiters s ?l" using Nil.prems(4) by simp
  note tk = tokens_after_step [OF h]
  note st = admitted_step [OF tk(1)]
  have w: "wrapRateLimiterFor limiterFor ?s1 p = ?l"
    unfolding s0 using st(1) by (rule wrap_cong)
  have t: "terminateWithError ?s1 = None" unfolding s0 using st(2) Nil.prems(5) by simp
  have r: "isRetryingDueToRateLimit ?s1 p = None"
    unfolding s0 using st(5) Nil.prems(1,3) by simp
  have c: "blockHookCalls ?s1 = blockHookCalls s @ [(p, Link bd)]"
    unfolding s0 using st(4) Nil.prems(1,3) by simp
  have l: "wire_blocks post \<le> limiters ?s1 (wrapRateLimiterFor limiterFor ?s1 p)"
    unfolding w unfolding s0 using tk(2) by simp
  from pass_no_retry [OF r l t] show ?case using t c by (simp add: Let_def)
next
  case (Cons b pre)
  let ?s0 = "s\<lparr>terminateWithError := None\<rparr>"
  let ?s1 = "incomingBlockHook limiterFor p b ?s0"
  let ?l = "wrapRateLimiterFor limiterFor s p"
  have s0: "?s0 = s" using Cons.prems(5) by simp
  have h: "wire_blocks (b # pre @ bd # post) \<le> limiters s ?l" using Cons.prems(4) by simp
  note tk = tokens_after_step [OF h]
  have ne: "Link b \<noteq> c" using Cons.prems(2) by simp
  note st = admitted_step [OF tk(1)]
  have w: "wrapRateLimiterFor limiterFor ?s1 p = ?l"
    unfolding s0 using st(1) by (rule wrap_cong)
  have t: "terminateWithError ?s1 = None" unfolding s0 using st(2) Cons.prems(5) by simp
  have r: "isRetryingDueToRateLimit ?s1 p = Some c"
    unfolding s0 using st(5) Cons.prems(1) ne by auto
  have c: "blockHookCalls ?s1 = blockHookCalls s"
    unfolding s0 using st(4) Cons.prems(1) ne by auto
  have l: "wire_blocks (pre @ bd # post) \<le> limiters ?s1 (wrapRateLimiterFor limiterFor ?s1 p)"
    unfolding w unfolding s0 using tk(2) by simp
  have p: "\<forall>b \<in> set pre. Link b \<noteq> c" using Cons.prems(2) by simp
  from Cons.IH [OF r p Cons.prems(3) l t] show ?case using t c by (simp add: Let_def)
qed

text \<open>
  C4 as stated fails at the recorded block itself: on the retry the caller's block hook
  is called for the block whose link is in the retry slot. Here the first call is
  refused and records \<open>c\<close>; after a refill the same block arrives again.
\<close>

theorem retry_calls_hook_on_recorded_block:
  "isRetryingDueToRateLimit
     (incomingBlockHook one_limiter ''p'' \<lparr>Link = ''c'', BlockSizeOnWire = 1\<rparr>
        (NewSync None (tokens 0))) ''p'' = Some ''c''
   \<and> blockHookCalls (incomingBlockHook one_limiter ''p'' \<lparr>Link = ''c'', BlockSizeOnWire = 1\<rparr>
        ((incomingBlockHook one_limiter ''p'' \<lparr>Link = ''c'', BlockSizeOnWire = 1\<rparr>
            (NewSync None (tokens 0)))\<lparr>limiters := tokens 1\<rparr>)) = [(''p'', ''c'')]"
  by (simp add: gate_defs NewSync_def one_limiter_def tokens_def)

text \<open>
  C4, amended. While the peer's retry slot holds a link, the caller's block hook is not
  called for a block with another link. On a retry pass in which every block is let
  through (it is local, or the limiter has a token for it: the limiter holds at least
  as many tokens as blocks of the pass came over the wire), the hook is therefore not
  called for the blocks before the recorded one; at the recorded block the slot is
  cleared and the hook is called for that block and for every block after it.
\<close>

theorem retry_pass_resumes_at_recorded_block:
  assumes "isRetryingDueToRateLimit s p = Some c"
  shows "(Link b0 \<noteq> c \<longrightarrow>
            blockHookCalls (incomingBlockHook limiterFor p b0 s) = blockHookCalls s)
    \<and> ((\<forall>b \<in> set pre. Link b \<noteq> c) \<and> Link bd = c
         \<and> wire_blocks (pre @ bd # post) \<le> limiters s (wrapRateLimiterFor limiterFor s p) \<longrightarrow>
       blockHookCalls (incoming_blocks (incomingBlockHook limiterFor) p (pre @ bd # post) s)
           = blockHookCalls s @ map (\<lambda>b. (p, Link b)) (bd # post)
       \<and> isRetryingDueToRateLimit
             (incoming_blocks (incomingBlockHook limiterFor) p (pre @ bd # post) s) p = None)"
proof (intro conjI impI)
  assume "Link b0 \<noteq> c"
  then show "blockHookCalls (incomingBlockHook limiterFor p b0 s) = blockHookCalls s"
    using assms by (auto simp: gate_defs Let_def split: prod.splits)
next
  assume a: "(\<forall>b \<in> set pre. Link b \<noteq> c) \<and> Link bd = c
         \<and> wire_blocks (pre @ bd # post) \<le> limiters s (wrapRateLimiterFor limiterFor s p)"
  let ?s = "s\<lparr>terminateWithError := None\<rparr>"
  have eq: "incoming_blocks (incomingBlockHook limiterFor) p (pre @ bd # post) ?s
          = incoming_blocks (incomingBlockHook limiterFor) p (pre @ bd # post) s"
    by (rule incoming_blocks_reset) simp
  have "blockHookCalls (incoming_blocks (incomingBlockHook limiterFor) p (pre @ bd # post) ?s)
           = blockHookCalls ?s @ map (\<lambda>b. (p, Link b)) (bd # post)
       \<and> isRetryingDueToRateLimit
             (incoming_blocks (incomingBlockHook limiterFor) p (pre @ bd # post) ?s) p = None"
    using assms a by (intro retry_pass) (simp_all add: wrapRateLimiterFor_def)
  then show "blockHookCalls
        (incoming_blocks (incomingBlockHook limiterFor) p (pre @ bd # post) s)
           = blockHookCalls s @ map (\<lambda>b. (p, Link b)) (bd # post)"
    and "isRetryingDueToRateLimit
             (incoming_blocks (incomingBlockHook limiterFor) p (pre @ bd # post) s) p = None"
    unfolding eq by simp_all
qed

theorem retry_pass_resumes_at_recorded_block_witness:
  "blockHookCalls (incomingBlockHook one_limiter ''p'' \<lparr>Link = ''a'', BlockSizeOnWire = 0\<rparr>
      ((incomingBlockHook one_limiter ''p'' \<lparr>Link = ''b'', BlockSizeOnWire = 1\<rparr>
          (NewSync None (tokens 0)))\<lparr>limiters := tokens 2\<rparr>)) = []
   \<and> blockHookCalls (incoming_blocks (incomingBlockHook one_limiter) ''p''
      [\<lparr>Link = ''a'', BlockSizeOnWire = 0\<rparr>, \<lparr>Link = ''b'', BlockSizeOnWire = 1\<rparr>,
       \<lparr>Link = ''c'', BlockSizeOnWire = 1\<rparr>]
      ((incomingBlockHook one_limiter ''p'' \<lparr>Link = ''b'', BlockSizeOnWire = 1\<rparr>
          (NewSync None (tokens 0)))\<lparr>limiters := tokens 2\<rparr>))
     = [(''p'', ''b''), (''p'', ''c'')]"
  using retry_pass_resumes_at_recorded_block
    [where s = "(incomingBlockHook one_limiter ''p'' \<lparr>Link = ''b'', BlockSizeOnWire = 1\<rparr>
          (NewSync None (tokens 0)))\<lparr>limiters := tokens 2\<rparr>"
       and p = "''p''" and c = "''b''" and limiterFor = one_limiter
       and ?b0.0 = "\<lparr>Link = ''a'', BlockSizeOnWire = 0\<rparr>"
       and pre = "[\<lparr>Link = ''a'', BlockSizeOnWire = 0\<rparr>]"
       and bd = "\<lparr>Link = ''b'', BlockSizeOnWire = 1\<rparr>"
       and post = "[\<lparr>Link = ''c'', BlockSizeOnWire = 1\<rparr>]"]
  by (simp add: gate_defs NewSync_def one_limiter_def tokens_def wire_blocks_def)

subsection \<open>The sync-done table\<close>

lemma snd_update_subset: "snd ` set (AList.update k v al) \<subseteq> insert v (snd ` set al)"
  by (induction al) auto

lemma distinct_snd_update:
  "distinct (map snd al) \<Longrightarrow> v \<notin> snd ` set al \<Longrightarrow> distinct (map snd (AList.update k v al))"
proof (induction al)
  case Nil
  then show ?case by simp
next
  case (Cons a al)
  obtain k' v' where a: "a = (k', v')" by (cases a)
  show ?case
  proof (cases "k' = k")
    case True
    then show ?thesis using Cons.prems a by auto
  next
    case False
    have "v' \<notin> snd ` set (AList.update k v al)"
      using snd_update_subset [of k v al] Cons.prems a by force
    then show ?thesis using Cons a False by auto
  qed
qed

lemma set_update_subset: "set (AList.update k v al) \<subseteq> insert (k, v) (set al)"
  by (induction al) auto

lemma notify_ok:
  assumes "chans_ok s"
  shows "chans_ok (snd (notifyOnSyncDone k s))"
    and "map_of (entries (snd (notifyOnSyncDone k s))) k = Some (fst (notifyOnSyncDone k s))"
    and "chans (snd (notifyOnSyncDone k s)) (fst (notifyOnSyncDone k s)) = \<lparr>buf = [], closed = False\<rparr>"
proof -
  let ?m = "entries s"
  let ?n = "nchans s"
  have lt: "\<forall>e \<in> set ?m. snd e < ?n \<and> chans s (snd e) = \<lparr>buf = [], closed = False\<rparr>"
    using assms by (simp add: chans_ok_def list_all_iff)
  have e: "entries (snd (notifyOnSyncDone k s)) = AList.update k ?n ?m"
    by (simp add: notifyOnSyncDone_def entries_def Let_def)
  have fresh: "?n \<notin> snd ` set ?m" using lt by auto
  have d1: "distinct (map fst (AList.update k ?n ?m))"
    using assms by (simp add: chans_ok_def distinct_update)
  have d2: "distinct (map snd (AList.update k ?n ?m))"
    using assms fresh by (simp add: chans_ok_def distinct_snd_update)
  have all: "\<forall>e \<in> set (AList.update k ?n ?m).
      snd e < Suc ?n \<and> ((chans s)(?n := \<lparr>buf = [], closed = False\<rparr>)) (snd e) = \<lparr>buf = [], closed = False\<rparr>"
  proof
    fix e assume "e \<in> set (AList.update k ?n ?m)"
    then have "e = (k, ?n) \<or> e \<in> set ?m"
      using set_update_subset [of k ?n ?m] by auto
    then show "snd e < Suc ?n
        \<and> ((chans s)(?n := \<lparr>buf = [], closed = False\<rparr>)) (snd e) = \<lparr>buf = [], closed = False\<rparr>"
    proof
      assume "e = (k, ?n)" then show ?thesis by simp
    next
      assume "e \<in> set ?m"
      then have "snd e < ?n \<and> chans s (snd e) = \<lparr>buf = [], closed = False\<rparr>"
        using lt by blast
      then show ?thesis by simp
    qed
  qed
  show "chans_ok (snd (notifyOnSyncDone k s))"
    unfolding chans_ok_def e using d1 d2 all
    by (simp add: notifyOnSyncDone_def Let_def list_all_iff)
  show "map_of (entries (snd (notifyOnSyncDone k s))) k = Some (fst (notifyOnSyncDone k s))"
    unfolding e by (simp add: update_conv' notifyOnSyncDone_def Let_def)
  show "chans (snd (notifyOnSyncDone k s)) (fst (notifyOnSyncDone k s)) = \<lparr>buf = [], closed = False\<rparr>"
    by (simp add: notifyOnSyncDone_def Let_def)
qed

lemma delete_single:
  assumes "length m = 1" and "map_of m k = Some ch"
  shows "AList.delete k m = []"
proof -
  obtain a where m: "m = [a]" using assms(1) by (cases m) auto
  then show ?thesis using assms(2) by (cases a) (auto split: if_splits)
qed

lemma signal_found:
  assumes "chans_ok s" and "map_of (entries s) k = Some ch"
  shows "signalSyncDone k err s =
     Inr (True, s\<lparr>syncDoneChans :=
                      (if length (entries s) = 1 then None
                       else Some (AList.delete k (entries s))),
                   chans := (chans s)
                      (ch := \<lparr>buf = (case err of None \<Rightarrow> [] | Some e \<Rightarrow> [e]),
                             closed = True\<rparr>)\<rparr>)"
proof -
  have "(k, ch) \<in> set (entries s)" using assms(2) by (rule map_of_SomeD)
  then have c: "chans s ch = \<lparr>buf = [], closed = False\<rparr>"
    using assms(1) by (auto simp: chans_ok_def list_all_iff)
  show ?thesis using assms(2) c
    by (cases err) (simp_all add: signalSyncDone_def chan_send_def chan_close_def Let_def)
qed

lemma signal_missing:
  assumes "map_of (entries s) k = None"
  shows "signalSyncDone k err s = Inr (False, s)"
  using assms by (simp add: signalSyncDone_def)

lemma removal_ok:
  assumes "chans_ok s" and "map_of (entries s) k = Some ch"
  shows "chans_ok (s\<lparr>syncDoneChans :=
                      (if length (entries s) = 1 then None
                       else Some (AList.delete k (entries s))),
                   chans := (chans s)(ch := c)\<rparr>)" (is "chans_ok ?s1")
    and "map_of (entries (s\<lparr>syncDoneChans :=
                      (if length (entries s) = 1 then None
                       else Some (AList.delete k (entries s))),
                   chans := (chans s)(ch := c)\<rparr>)) k = None"
proof -
  let ?m = "entries s"
  have e: "entries ?s1 = AList.delete k ?m"
    using delete_single [of ?m k ch] assms(2) by (simp add: entries_def)
  have mem: "(k, ch) \<in> set ?m" using assms(2) by (rule map_of_SomeD)
  have d1: "distinct (map fst ?m)" and d2: "distinct (map snd ?m)"
    and all: "\<forall>e \<in> set ?m. snd e < nchans s \<and> chans s (snd e) = \<lparr>buf = [], closed = False\<rparr>"
    using assms(1) by (simp_all add: chans_ok_def list_all_iff)
  have sub: "set (AList.delete k ?m) \<subseteq> set ?m" by (auto simp: AList.delete_eq)
  have ne: "\<forall>e \<in> set (AList.delete k ?m). snd e \<noteq> ch"
  proof
    fix e assume a: "e \<in> set (AList.delete k ?m)"
    then have "e \<in> set ?m" and "fst e \<noteq> k" by (auto simp: AList.delete_eq)
    then have "e \<noteq> (k, ch)" by auto
    moreover have "inj_on snd (set ?m)" using d2 by (simp add: distinct_map)
    ultimately show "snd e \<noteq> ch"
      using mem \<open>e \<in> set ?m\<close> inj_onD [of snd "set ?m" e "(k, ch)"] by auto
  qed
  have "distinct (map snd (AList.delete k ?m))"
    using d2 by (simp add: AList.delete_eq distinct_map_filter)
  then show "chans_ok ?s1"
    unfolding chans_ok_def e using d1 all sub ne
    by (auto simp: distinct_delete list_all_iff)
  show "map_of (entries ?s1) k = None"
    unfolding e by (simp add: delete_conv')
qed


lemma chans_ok_NewSync: "chans_ok (NewSync close_fn lims)"
  by (simp add: chans_ok_def entries_def NewSync_def)

lemma chans_ok_no_entries: "syncDoneChans s = None \<Longrightarrow> chans_ok s"
  by (simp add: chans_ok_def entries_def)

text \<open>The block hooks leave the table and the channels alone.\<close>

lemma chans_ok_incomingBlockHook:
  "chans_ok (incomingBlockHook limiterFor p bd s) = chans_ok s"
  by (simp add: gate_defs chans_ok_def entries_def Let_def split: option.splits prod.splits)

text \<open>
  C7. The table holds at most one channel per key: registering keeps the keys (and the
  channels) distinct and makes the new channel the one found under the key. Signalling a
  registered key removes the entry, sends the error (if any) once and closes the channel;
  a second signal for the key finds nothing and changes nothing.
\<close>

theorem sync_done_signalled_once:
  assumes "chans_ok s"
  shows "chans_ok (snd (notifyOnSyncDone k s))
    \<and> map_of (entries (snd (notifyOnSyncDone k s))) k = Some (fst (notifyOnSyncDone k s))
    \<and> (map_of (entries s) k = Some ch \<longrightarrow>
         (\<exists>s1. signalSyncDone k err s = Inr (True, s1)
            \<and> chans_ok s1
            \<and> map_of (entries s1) k = None
            \<and> chans s1 ch = \<lparr>buf = (case err of None \<Rightarrow> [] | Some e \<Rightarrow> [e]), closed = True\<rparr>
            \<and> signalSyncDone k err' s1 = Inr (False, s1)))"
proof (intro conjI impI)
  show "chans_ok (snd (notifyOnSyncDone k s))" using assms by (rule notify_ok(1))
  show "map_of (entries (snd (notifyOnSyncDone k s))) k = Some (fst (notifyOnSyncDone k s))"
    using assms by (rule notify_ok(2))
next
  assume f: "map_of (entries s) k = Some ch"
  let ?c = "\<lparr>buf = (case err of None \<Rightarrow> [] | Some e \<Rightarrow> [e]), closed = True\<rparr>"
  let ?s1 = "s\<lparr>syncDoneChans := (if length (entries s) = 1 then None
                                    else Some (AList.delete k (entries s))),
              chans := (chans s)(ch := ?c)\<rparr>"
  have 1: "signalSyncDone k err s = Inr (True, ?s1)" using assms f by (rule signal_found)
  have 2: "chans_ok ?s1" using assms f by (rule removal_ok(1))
  have 3: "map_of (entries ?s1) k = None" using assms f by (rule removal_ok(2))
  have 4: "chans ?s1 ch = ?c" by simp
  have 5: "signalSyncDone k err' ?s1 = Inr (False, ?s1)" using 3 by (rule signal_missing)
  show "\<exists>s1. signalSyncDone k err s = Inr (True, s1)
            \<and> chans_ok s1
            \<and> map_of (entries s1) k = None
            \<and> chans s1 ch = ?c
            \<and> signalSyncDone k err' s1 = Inr (False, s1)"
    using 1 2 3 4 5 by blast
qed

theorem sync_done_signalled_once_witness:
  "chans_ok (snd (notifyOnSyncDone (''c'', ''p'') (NewSync None (tokens 0))))
   \<and> signalSyncDone (''c'', ''p'') (Some (errorString ''boom''))
        (snd (notifyOnSyncDone (''c'', ''p'') (NewSync None (tokens 0))))
      = Inr (True, (NewSync None (tokens 0))
           \<lparr>nchans := 1, chans := (chans (NewSync None (tokens 0)))
              (0 := \<lparr>buf = [errorString ''boom''], closed = True\<rparr>)\<rparr>)
   \<and> signalSyncDone (''c'', ''p'') (Some (errorString ''again''))
        ((NewSync None (tokens 0))
           \<lparr>nchans := 1, chans := (chans (NewSync None (tokens 0)))
              (0 := \<lparr>buf = [errorString ''boom''], closed = True\<rparr>)\<rparr>)
      = Inr (False, (NewSync None (tokens 0))
           \<lparr>nchans := 1, chans := (chans (NewSync None (tokens 0)))
              (0 := \<lparr>buf = [errorString ''boom''], closed = True\<rparr>)\<rparr>)"
  using sync_done_signalled_once
    [of "NewSync None (tokens 0)" "(''c'', ''p'')" 0 "Some (errorString ''boom'')" None]
    sync_done_signalled_once
    [of "snd (notifyOnSyncDone (''c'', ''p'') (NewSync None (tokens 0)))" "(''c'', ''p'')" 0
        "Some (errorString ''boom'')" "Some (errorString ''again'')"]
  by (simp add: chans_ok_def entries_def notifyOnSyncDone_def NewSync_def signalSyncDone_def
      chan_send_def chan_close_def Let_def)

text \<open>
  \<open>onEvent\<close> hands the error of a terminal event to \<open>signalSyncDone\<close> under the key of
  the transfer, and ignores an event that is not terminal.
\<close>

lemma onEvent_not_terminal:
  "Status cs = Ongoing \<Longrightarrow> onEvent cs s = Inr s"
  by (simp add: onEvent_def event_error_def)

lemma onEvent_delivers:
  assumes "chans_ok s" and "map_of (entries s) (BaseCID cs, OtherPeer cs) = Some ch"
    and "event_error cs = Some err"
  shows "\<exists>s1. onEvent cs s = Inr s1
     \<and> chans s1 ch = \<lparr>buf = (case err of None \<Rightarrow> [] | Some e \<Rightarrow> [e]), closed = True\<rparr>
     \<and> map_of (entries s1) (BaseCID cs, OtherPeer cs) = None"
  using signal_found [OF assms(1,2), of err] removal_ok(2) [OF assms(1,2)] assms(3)
  by (simp add: onEvent_def)

subsection \<open>Close\<close>

lemma dismiss_ok:
  assumes "distinct (map snd es)"
    and "\<forall>e \<in> set es. chans s (snd e) = \<lparr>buf = [], closed = False\<rparr>"
  shows "dismiss es s =
     Inr (s\<lparr>chans := (\<lambda>ch. if ch \<in> snd ` set es
                            then \<lparr>buf = [errorString ''sync closed''], closed = True\<rparr>
                            else chans s ch)\<rparr>)"
  using assms
proof (induction es arbitrary: s)
  case Nil
  then show ?case by simp
next
  case (Cons a es)
  obtain k ch where a: "a = (k, ch)" by (cases a)
  let ?s2 = "s\<lparr>chans := (chans s)(ch := \<lparr>buf = [errorString ''sync closed''], closed = True\<rparr>)\<rparr>"
  have c: "chans s ch = \<lparr>buf = [], closed = False\<rparr>" using Cons.prems(2) a by simp
  have step: "dismiss (a # es) s = dismiss es ?s2"
    using c by (simp add: a chan_send_def chan_close_def Let_def)
  have nin: "ch \<notin> snd ` set es" using Cons.prems(1) a by auto
  have d: "distinct (map snd es)" using Cons.prems(1) by simp
  have o: "\<forall>e \<in> set es. chans ?s2 (snd e) = \<lparr>buf = [], closed = False\<rparr>"
    using Cons.prems(2) nin by auto
  have "dismiss es ?s2 = Inr (?s2\<lparr>chans := (\<lambda>c. if c \<in> snd ` set es
                            then \<lparr>buf = [errorString ''sync closed''], closed = True\<rparr>
                            else chans ?s2 c)\<rparr>)"
    using d o by (rule Cons.IH)
  moreover have "(\<lambda>c. if c \<in> snd ` set es
                            then \<lparr>buf = [errorString ''sync closed''], closed = True\<rparr>
                            else chans ?s2 c)
      = (\<lambda>c. if c \<in> snd ` set (a # es)
                            then \<lparr>buf = [errorString ''sync closed''], closed = True\<rparr>
                            else chans s c)"
    using a by (auto simp: fun_eq_iff)
  ultimately show ?case unfolding step by simp
qed

lemma Sync_Close_ok:
  assumes "chans_ok s"
  shows "Sync_Close s =
     Inr (case dtClose s of None \<Rightarrow> None | Some r \<Rightarrow> r,
          s\<lparr>subscribed := False, hookRegistered := False, syncDoneChans := None,
            chans := (\<lambda>ch. if ch \<in> snd ` set (entries s)
                            then \<lparr>buf = [errorString ''sync closed''], closed = True\<rparr>
                            else chans s ch)\<rparr>)"
proof -
  let ?s1 = "s\<lparr>subscribed := False, hookRegistered := False\<rparr>"
  have e: "entries ?s1 = entries s" by (simp add: entries_def)
  have d: "distinct (map snd (entries ?s1))" using assms by (simp add: chans_ok_def e)
  have o: "\<forall>x \<in> set (entries ?s1). chans ?s1 (snd x) = \<lparr>buf = [], closed = False\<rparr>"
    using assms by (simp add: chans_ok_def e list_all_iff)
  have "dismiss (entries ?s1) ?s1 =
     Inr (?s1\<lparr>chans := (\<lambda>ch. if ch \<in> snd ` set (entries ?s1)
                            then \<lparr>buf = [errorString ''sync closed''], closed = True\<rparr>
                            else chans ?s1 ch)\<rparr>)"
    using d o by (rule dismiss_ok)
  then have "dismiss (entries ?s1) ?s1 =
     Inr (?s1\<lparr>chans := (\<lambda>ch. if ch \<in> snd ` set (entries s)
                            then \<lparr>buf = [errorString ''sync closed''], closed = True\<rparr>
                            else chans s ch)\<rparr>)"
    unfolding e by (simp cong: if_cong)
  then show ?thesis unfolding Sync_Close_def Let_def by simp
qed

text \<open>
  C8 as stated fails: nothing records that the \<open>Sync\<close> was closed, so an operation after
  \<open>Close\<close> does not return a shutdown error. Here a sync is registered, \<open>Close\<close> returns
  nil, and \<open>notifyOnSyncDone\<close> then registers a new, open channel as on a fresh \<open>Sync\<close>.
\<close>

theorem no_shutdown_error_after_Close:
  "\<not> isl (Sync_Close (snd (notifyOnSyncDone (''c'', ''p'') (NewSync None (tokens 0)))))
   \<and> fst (projr (Sync_Close (snd (notifyOnSyncDone (''c'', ''p'') (NewSync None (tokens 0))))))
       = None
   \<and> fst (notifyOnSyncDone (''d'', ''p'')
        (snd (projr (Sync_Close (snd (notifyOnSyncDone (''c'', ''p'') (NewSync None (tokens 0))))))))
       = 1
   \<and> entries (snd (notifyOnSyncDone (''d'', ''p'')
        (snd (projr (Sync_Close (snd (notifyOnSyncDone (''c'', ''p'') (NewSync None (tokens 0)))))))))
       = [((''d'', ''p''), 1)]
   \<and> chans (snd (notifyOnSyncDone (''d'', ''p'')
        (snd (projr (Sync_Close (snd (notifyOnSyncDone (''c'', ''p'') (NewSync None (tokens 0)))))))))
        1 = \<lparr>buf = [], closed = False\<rparr>"
  by (simp add: Sync_Close_def entries_def notifyOnSyncDone_def NewSync_def
      chan_send_def chan_close_def Let_def)

text \<open>
  The same on the HTTP subscriber: \<open>Sync\<close> has no error result other than nil, whatever
  was closed before.
\<close>

lemma httpSubscriber_Sync_no_error:
  "httpSubscriber_Sync cx p c selector respChan hs = Inl SendWouldBlock
   \<or> (\<exists>hs'. httpSubscriber_Sync cx p c selector respChan hs = Inr ((respChan, None), hs'))"
  by (simp add: httpSubscriber_Sync_def)

text \<open>
  \<open>Close\<close> of the HTTP subscriber meets the nil entry that \<open>NewHTTPSubscriber\<close> puts at
  the front of \<open>subs\<close>, before it closes any channel of an observer.
\<close>

lemma httpSubscriber_Close_nil_entry:
  "httpSubscriber_Close cl (OnChange ch (NewHTTPSubscriber d)) = Inl CloseOfNilChannel"
  by (simp add: httpSubscriber_Close_def OnChange_def NewHTTPSubscriber_def)

text \<open>
  C8, amended. \<open>Close\<close> of the data-transfer \<open>Sync\<close> sends \<open>sync closed\<close> on the channel
  of every sync in progress and then closes that channel, empties the table and returns
  what the close function of the manager returns. No closed state is kept: afterwards a
  signal finds no channel, and \<open>notifyOnSyncDone\<close> registers a new open channel.
\<close>

theorem Close_dismisses_syncs:
  assumes "chans_ok s"
  shows "\<exists>s'. Sync_Close s = Inr (case dtClose s of None \<Rightarrow> None | Some r \<Rightarrow> r, s')
     \<and> syncDoneChans s' = None
     \<and> (\<forall>e \<in> set (entries s).
           chans s' (snd e) = \<lparr>buf = [errorString ''sync closed''], closed = True\<rparr>)
     \<and> signalSyncDone k err s' = Inr (False, s')
     \<and> fst (notifyOnSyncDone k s') = nchans s'
     \<and> entries (snd (notifyOnSyncDone k s')) = [(k, nchans s')]
     \<and> chans (snd (notifyOnSyncDone k s')) (nchans s') = \<lparr>buf = [], closed = False\<rparr>"
proof -
  let ?s' = "s\<lparr>subscribed := False, hookRegistered := False, syncDoneChans := None,
            chans := (\<lambda>ch. if ch \<in> snd ` set (entries s)
                            then \<lparr>buf = [errorString ''sync closed''], closed = True\<rparr>
                            else chans s ch)\<rparr>"
  have 1: "Sync_Close s = Inr (case dtClose s of None \<Rightarrow> None | Some r \<Rightarrow> r, ?s')"
    using assms by (rule Sync_Close_ok)
  have 2: "syncDoneChans ?s' = None" by simp
  have 3: "\<forall>e \<in> set (entries s).
           chans ?s' (snd e) = \<lparr>buf = [errorString ''sync closed''], closed = True\<rparr>" by simp
  have 4: "signalSyncDone k err ?s' = Inr (False, ?s')"
    by (rule signal_missing) (simp add: entries_def)
  have 5: "fst (notifyOnSyncDone k ?s') = nchans ?s'"
    and 6: "entries (snd (notifyOnSyncDone k ?s')) = [(k, nchans ?s')]"
    and 7: "chans (snd (notifyOnSyncDone k ?s')) (nchans ?s') = \<lparr>buf = [], closed = False\<rparr>"
    by (simp_all add: notifyOnSyncDone_def entries_def Let_def)
  show ?thesis using 1 2 3 4 5 6 7 by blast
qed

theorem Close_dismisses_syncs_witness:
  "chans (snd (projr (Sync_Close (snd (notifyOnSyncDone (''c'', ''p'') (NewSync None (tokens 0)))))))
      0 = \<lparr>buf = [errorString ''sync closed''], closed = True\<rparr>
   \<and> syncDoneChans
        (snd (projr (Sync_Close (snd (notifyOnSyncDone (''c'', ''p'') (NewSync None (tokens 0)))))))
       = None"
  using Close_dismisses_syncs
    [of "snd (notifyOnSyncDone (''c'', ''p'') (NewSync None (tokens 0)))" "(''d'', ''p'')" None]
  by (simp add: chans_ok_def Sync_Close_def entries_def notifyOnSyncDone_def NewSync_def
      chan_send_def chan_close_def Let_def)

subsection \<open>Terminal transfer events\<close>

lemma sentinel_in_both:
  "strings_Contains ''hit rate limit: content not found'' hitRateLimitErrStr"
  unfolding strings_Contains_def hitRateLimitErrStr_def by code_simp

lemma not_found_in_both:
  "strings_HasSuffix ''hit rate limit: content not found'' ''content not found''"
  unfolding strings_HasSuffix_def by code_simp

text \<open>
  C6 as stated fails where a failure message both contains the rate-limit sentinel and
  ends in \<open>content not found\<close>: the annotation replaces the error by a plain one, which
  is no longer a \<open>rateLimitErr\<close>.
\<close>

theorem rate_limit_type_lost_when_annotated:
  "strings_Contains ''hit rate limit: content not found'' hitRateLimitErrStr
   \<and> event_error \<lparr>Status = Failed, Message = ''hit rate limit: content not found'',
        BaseCID = ''c'', OtherPeer = ''p''\<rparr>
     = Some (Some (errorString ''hit rate limit: content not found: content not found''))"
  using sentinel_in_both not_found_in_both by (simp add: event_error_def)

text \<open>
  C6, amended. Completed signals nil and Cancelled signals the error
  \<open>datatransfer cancelled\<close>. A Failed message that does not end in \<open>content not found\<close>
  gives a \<open>rateLimitErr\<close> with the message when it contains \<open>hit rate limit\<close>, and
  otherwise the plain error \<open>datatransfer failed: \<close> followed by the message. A Failed
  message that ends in \<open>content not found\<close> gives a plain error: the text of the error
  above followed by \<open>: content not found\<close>.
\<close>

theorem terminal_event_classification:
  "(Status cs = Completed \<longrightarrow> event_error cs = Some None)
   \<and> (Status cs = Cancelled \<longrightarrow>
        event_error cs = Some (Some (errorString ''datatransfer cancelled'')))
   \<and> (Status cs = Failed \<and> strings_Contains (Message cs) ''hit rate limit''
        \<and> \<not> strings_HasSuffix (Message cs) ''content not found'' \<longrightarrow>
        event_error cs = Some (Some (rateLimitErr (Message cs))))
   \<and> (Status cs = Failed \<and> \<not> strings_Contains (Message cs) ''hit rate limit''
        \<and> \<not> strings_HasSuffix (Message cs) ''content not found'' \<longrightarrow>
        event_error cs = Some (Some (errorString (''datatransfer failed: '' @ Message cs))))
   \<and> (Status cs = Failed \<and> strings_HasSuffix (Message cs) ''content not found'' \<longrightarrow>
        event_error cs = Some (Some (errorString
          ((if strings_Contains (Message cs) ''hit rate limit'' then Message cs
            else ''datatransfer failed: '' @ Message cs) @ '': content not found''))))"
  by (simp add: event_error_def hitRateLimitErrStr_def)

theorem terminal_event_classification_witness:
  "event_error \<lparr>Status = Completed, Message = [], BaseCID = ''c'', OtherPeer = ''p''\<rparr>
     = Some None
   \<and> event_error \<lparr>Status = Cancelled, Message = [], BaseCID = ''c'', OtherPeer = ''p''\<rparr>
     = Some (Some (errorString ''datatransfer cancelled''))
   \<and> event_error \<lparr>Status = Failed, Message = ''hit rate limit'', BaseCID = ''c'',
        OtherPeer = ''p''\<rparr>
     = Some (Some (rateLimitErr ''hit rate limit''))
   \<and> event_error \<lparr>Status = Failed, Message = ''boom'', BaseCID = ''c'', OtherPeer = ''p''\<rparr>
     = Some (Some (errorString ''datatransfer failed: boom''))
   \<and> event_error \<lparr>Status = Failed, Message = ''content not found'', BaseCID = ''c'',
        OtherPeer = ''p''\<rparr>
     = Some (Some (errorString ''datatransfer failed: content not found: content not found''))"
proof -
  have a: "strings_Contains ''hit rate limit'' ''hit rate limit''"
    and b: "\<not> strings_HasSuffix ''hit rate limit'' ''content not found''"
    and c: "\<not> strings_Contains ''boom'' ''hit rate limit''"
    and d: "\<not> strings_HasSuffix ''boom'' ''content not found''"
    and e: "\<not> strings_Contains ''content not found'' ''hit rate limit''"
    and f: "strings_HasSuffix ''content not found'' ''content not found''"
    unfolding strings_Contains_def strings_HasSuffix_def by code_simp+
  show ?thesis
    using a b c d e f
      terminal_event_classification
        [of "\<lparr>Status = Completed, Message = [], BaseCID = ''c'', OtherPeer = ''p''\<rparr>"]
      terminal_event_classification
        [of "\<lparr>Status = Cancelled, Message = [], BaseCID = ''c'', OtherPeer = ''p''\<rparr>"]
      terminal_event_classification
        [of "\<lparr>Status = Failed, Message = ''hit rate limit'', BaseCID = ''c'', OtherPeer = ''p''\<rparr>"]
      terminal_event_classification
        [of "\<lparr>Status = Failed, Message = ''boom'', BaseCID = ''c'', OtherPeer = ''p''\<rparr>"]
      terminal_event_classification
        [of "\<lparr>Status = Failed, Message = ''content not found'', BaseCID = ''c'',
              OtherPeer = ''p''\<rparr>"]
    by simp
qed

subsection \<open>The HTTP publisher\<close>





end
